theory Spec2Isabelle
  imports Main "HOL-Library.Word"
begin

section \<open>The chunk plan of \<open>YandexDiskDownloader.download\<close>\<close>

text \<open>
  Lines 98--107 of \<open>YandexCLI.py\<close>:
  \<^verbatim>\<open>
  chunk_size = file_size // self.num_threads
  for i in range(self.num_threads):
      start_byte = i * chunk_size
      end_byte = start_byte + chunk_size - 1
      if i == self.num_threads - 1:
          end_byte = file_size - 1
  \<close>
  Python integers are unbounded, so sizes and offsets are \<open>int\<close>; the loop index runs
  over \<open>range(num_threads)\<close> and is a \<open>nat\<close>. Python's \<open>//\<close> rounds towards minus
  infinity, as \<open>div\<close> on \<open>int\<close> does. A chunk is the pair \<open>(start_byte, end_byte)\<close>,
  both bounds inclusive, as they are sent in the \<open>Range\<close> header.
\<close>

type_synonym chunk = "int \<times> int"

definition plan_chunk :: "int \<Rightarrow> int \<Rightarrow> nat \<Rightarrow> chunk" where
  "plan_chunk file_size num_threads i =
     (let chunk_size = file_size div num_threads;
          start_byte = int i * chunk_size;
          end_byte = start_byte + chunk_size - 1
      in (start_byte, if int i = num_threads - 1 then file_size - 1 else end_byte))"

definition plan :: "int \<Rightarrow> int \<Rightarrow> chunk list" where
  "plan file_size num_threads = map (plan_chunk file_size num_threads) [0..<nat num_threads]"

text \<open>The number of bytes an inclusive range \<open>[start, end]\<close> names.\<close>

definition chunk_len :: "chunk \<Rightarrow> int" where
  "chunk_len c = snd c - fst c + 1"

section \<open>Exceptions, messages and the state of the machine\<close>

text \<open>
  The exceptions the program can meet, all of them subclasses of Python's \<open>Exception\<close>.
  \<open>HTTPError\<close> (raised by \<open>raise_for_status\<close>) and \<open>TransportError\<close> (a connection
  error, a timeout or a broken body stream reported by \<open>requests\<close>) are the two that are
  instances of \<open>requests.RequestException\<close>. \<open>ConnectionError\<close> is the builtin one
  raised at line 116 (the module never imports the one of \<open>requests\<close>), \<open>OSError\<close> is
  a refused \<open>open(path, "wb")\<close>, \<open>FileNotFoundError\<close> is raised at line 73 and
  \<open>OverflowError\<close> by the true division of line 96.
\<close>

datatype exn =
    HTTPError int
  | TransportError
  | OSError
  | FileNotFoundError string
  | ConnectionError
  | ZeroDivisionError
  | ValueError
  | OverflowError

fun is_RequestException :: "exn \<Rightarrow> bool" where
  "is_RequestException (HTTPError _) = True"
| "is_RequestException TransportError = True"
| "is_RequestException _ = False"

text \<open>One constructor for each \<open>print\<close> call of the class, with the values it formats.\<close>

datatype msg =
    ErrorDownloadingPart string exn
  | Merging int string
  | CleaningUp
  | FallbackNotice
  | DownloadingUsing string int int
  | DownloadComplete
  | SimpleDownloadComplete
  | AnErrorOccurred exn
  | UnexpectedError exn

type_synonym byte = "8 word"
type_synonym bytes = "byte list"

datatype request = GET string "chunk option" | HEAD string

text \<open>
  What the network answers to a streamed \<open>GET\<close>: either \<open>session.get\<close> itself raises
  (\<open>Refused\<close>), or a response arrives with a status and a body, which \<open>iter_content\<close>
  hands over as a sequence of buffers; \<open>aborted\<close> says that the stream raises a
  \<open>RequestException\<close> after the last of these buffers instead of ending.
\<close>

datatype reply = Refused | Response (status: int) (body: "bytes list") (aborted: bool)

text \<open>
  Everything outside the program. \<open>api_href\<close> is the outcome of lines 26--29 (the
  \<open>GET\<close> of the API, \<open>raise_for_status\<close> and \<open>json()["href"]\<close>), \<open>probe\<close> that of
  the \<open>HEAD\<close> request with \<open>raise_for_status\<close> (the response headers, by lower-case
  name), \<open>served k\<close> the reply to the \<open>k\<close>-th streamed \<open>GET\<close> of the job,
  \<open>filename_param\<close> the value \<open>urllib.parse\<close> finds for the query parameter
  \<open>filename\<close>, \<open>int_of_str\<close> Python's \<open>int\<close> on a string (\<open>None\<close> where it raises
  \<open>ValueError\<close>), and \<open>unwritable\<close> the paths on which \<open>open(path, "wb")\<close> raises.
\<close>

record env =
  api_href :: "string \<Rightarrow> exn + string"
  probe :: "string \<Rightarrow> exn + (string \<rightharpoonup> string)"
  served :: "nat \<Rightarrow> request \<Rightarrow> reply"
  filename_param :: "string \<Rightarrow> string option"
  int_of_str :: "string \<Rightarrow> int option"
  unwritable :: "string \<Rightarrow> bool"

text \<open>
  The state the program changes: the files on disk, the counter \<open>n\<close> of the \<open>tqdm\<close>
  progress bar, the lines printed so far and the requests sent so far.
\<close>

record world =
  files :: "string \<rightharpoonup> bytes"
  pbar :: int
  printed :: "msg list"
  sent :: "request list"

record config =
  link :: string
  download_location :: string
  num_threads :: int

definition print :: "msg \<Rightarrow> world \<Rightarrow> world" where
  "print m w = w\<lparr>printed := printed w @ [m]\<rparr>"

definition send :: "request \<Rightarrow> world \<Rightarrow> world" where
  "send r w = w\<lparr>sent := sent w @ [r]\<rparr>"

text \<open>\<open>open(path, "wb")\<close> on a writable path: the file exists and is empty.\<close>

definition open_wb :: "string \<Rightarrow> world \<Rightarrow> world" where
  "open_wb p w = w\<lparr>files := (files w)(p \<mapsto> [])\<rparr>"

text \<open>\<open>file.write(data)\<close> on the file opened at \<open>p\<close>.\<close>

definition write_file :: "string \<Rightarrow> bytes \<Rightarrow> world \<Rightarrow> world" where
  "write_file p data w =
     w\<lparr>files := (files w)(p \<mapsto> (case files w p of None \<Rightarrow> [] | Some old \<Rightarrow> old) @ data)\<rparr>"

text \<open>\<open>if os.path.exists(p): os.remove(p)\<close>.\<close>

definition remove_if_exists :: "string \<Rightarrow> world \<Rightarrow> world" where
  "remove_if_exists p w = (if files w p \<noteq> None then w\<lparr>files := (files w)(p := None)\<rparr> else w)"

text \<open>\<open>tqdm(total=...)\<close>: a fresh progress bar, whose counter starts at 0.\<close>

definition new_pbar :: "world \<Rightarrow> world" where
  "new_pbar w = w\<lparr>pbar := 0\<rparr>"

definition pbar_update :: "int \<Rightarrow> world \<Rightarrow> world" where
  "pbar_update k w = w\<lparr>pbar := pbar w + k\<rparr>"

definition raise_for_status :: "int \<Rightarrow> exn + unit" where
  "raise_for_status st = (if 400 \<le> st \<and> st < 600 then Inl (HTTPError st) else Inr ())"

section \<open>Paths\<close>

text \<open>The decimal digits of a loop index, as the f-string \<open>f"{i}"\<close> writes them.\<close>

definition digit_char :: "nat \<Rightarrow> char" where
  "digit_char d = char_of (48 + d)"

fun str_nat :: "nat \<Rightarrow> string" where
  "str_nat n = (if n < 10 then [digit_char n] else str_nat (n div 10) @ [digit_char (n mod 10)])"

declare str_nat.simps [simp del]

text \<open>\<open>f"{final_path}.part{i}"\<close>.\<close>

definition part_path :: "string \<Rightarrow> nat \<Rightarrow> string" where
  "part_path final_path i = final_path @ ''.part'' @ str_nat i"

text \<open>\<open>os.path.join\<close> and \<open>os.path.basename\<close> of two names on a POSIX system.\<close>

definition path_join :: "string \<Rightarrow> string \<Rightarrow> string" where
  "path_join a b =
     (if b \<noteq> [] \<and> hd b = CHR ''/'' then b
      else if a = [] \<or> last a = CHR ''/'' then a @ b
      else a @ ''/'' @ b)"

definition basename :: "string \<Rightarrow> string" where
  "basename p = rev (takeWhile (\<lambda>c. c \<noteq> CHR ''/'') (rev p))"

section \<open>\<open>_get_download_info\<close>\<close>

type_synonym target = "string \<times> string \<times> int \<times> bool"

definition api_url :: "string \<Rightarrow> string" where
  "api_url l = ''https://cloud-api.yandex.net/v1/disk/public/resources/download?public_key='' @ l"

definition get_download_info :: "env \<Rightarrow> config \<Rightarrow> world \<Rightarrow> (exn + target) \<times> world" where
  "get_download_info e cfg w =
     (let w1 = send (GET (api_url (link cfg)) None) w in
      case api_href e (api_url (link cfg)) of
        Inl x \<Rightarrow> (Inl x, w1)
      | Inr download_url \<Rightarrow>
          (let file_name = (case filename_param e download_url of
                              None \<Rightarrow> ''unknown_file'' | Some f \<Rightarrow> f);
               w2 = send (HEAD download_url) w1 in
           case probe e download_url of
             Inl x \<Rightarrow> (Inl x, w2)
           | Inr headers \<Rightarrow>
               (case (case headers ''content-length'' of
                        None \<Rightarrow> Some 0 | Some v \<Rightarrow> int_of_str e v) of
                  None \<Rightarrow> (Inl ValueError, w2)
                | Some file_size \<Rightarrow>
                    (Inr (download_url, file_name, file_size,
                          headers ''accept-ranges'' = Some ''bytes''), w2))))"

section \<open>\<open>_download_chunk\<close>\<close>

text \<open>
  The loop of lines 53--56 (and of lines 132--135): every non-empty buffer is written
  to the open file and its length added to the progress counter.
\<close>

fun write_stream :: "string \<Rightarrow> bytes list \<Rightarrow> world \<Rightarrow> world" where
  "write_stream p [] w = w"
| "write_stream p (c # cs) w =
     write_stream p cs (if c \<noteq> [] then pbar_update (int (length c)) (write_file p c w) else w)"

type_synonym task = "string \<times> int \<times> int \<times> string"

text \<open>
  The body of the \<open>try\<close> of lines 50--56, with the exception it raises, if any. \<open>k\<close> is
  the number of the request among the streamed requests of the job.
\<close>

definition download_chunk_try :: "env \<Rightarrow> nat \<Rightarrow> task \<Rightarrow> world \<Rightarrow> (exn + unit) \<times> world" where
  "download_chunk_try e k args w =
     (case args of (url, start, end, path) \<Rightarrow>
        (let w1 = send (GET url (Some (start, end))) w in
         case served e k (GET url (Some (start, end))) of
           Refused \<Rightarrow> (Inl TransportError, w1)
         | Response st bufs ab \<Rightarrow>
             (case raise_for_status st of
                Inl x \<Rightarrow> (Inl x, w1)
              | Inr _ \<Rightarrow>
                  if unwritable e path then (Inl OSError, w1)
                  else (let w2 = write_stream path bufs (open_wb path w1) in
                        if ab then (Inl TransportError, w2) else (Inr (), w2)))))"

text \<open>
  \<open>_download_chunk\<close>: the handler of lines 57--62 catches a \<open>RequestException\<close>, prints,
  removes the part file if there is one and returns \<open>False\<close>; any other exception leaves
  the function.
\<close>

definition download_chunk :: "env \<Rightarrow> nat \<Rightarrow> task \<Rightarrow> world \<Rightarrow> (exn + bool) \<times> world" where
  "download_chunk e k args w =
     (case download_chunk_try e k args w of
        (Inr _, w') \<Rightarrow> (Inr True, w')
      | (Inl x, w') \<Rightarrow>
          if is_RequestException x
          then (Inr False,
                remove_if_exists (snd (snd (snd args)))
                  (print (ErrorDownloadingPart (snd (snd (snd args))) x) w'))
          else (Inl x, w'))"

section \<open>\<open>_merge_files\<close>\<close>

text \<open>The loop of lines 70--75 over the indices that are left.\<close>

fun merge_loop :: "string \<Rightarrow> nat list \<Rightarrow> world \<Rightarrow> (exn + unit) \<times> world" where
  "merge_loop final_path [] w = (Inr (), w)"
| "merge_loop final_path (i # is) w =
     (case files w (part_path final_path i) of
        None \<Rightarrow> (Inl (FileNotFoundError (part_path final_path i)), w)
      | Some data \<Rightarrow> merge_loop final_path is (write_file final_path data w))"

text \<open>The loop of lines 79--82.\<close>

fun cleanup_loop :: "string \<Rightarrow> nat list \<Rightarrow> world \<Rightarrow> world" where
  "cleanup_loop final_path [] w = w"
| "cleanup_loop final_path (i # is) w =
     cleanup_loop final_path is (remove_if_exists (part_path final_path i) w)"

text \<open>
  \<open>_merge_files\<close>: the \<open>try\<close> of lines 69--75, then the \<open>finally\<close> of lines 76--82, which
  runs whether the \<open>try\<close> raised or not and lets the exception go on afterwards.
\<close>

definition merge_files :: "env \<Rightarrow> string \<Rightarrow> int \<Rightarrow> world \<Rightarrow> (exn + unit) \<times> world" where
  "merge_files e final_path num_parts w =
     (let w0 = print (Merging num_parts (basename final_path)) w;
          (r, w1) = (if unwritable e final_path then (Inl OSError, w0)
                     else merge_loop final_path [0..<nat num_parts] (open_wb final_path w0));
          w2 = cleanup_loop final_path [0..<nat num_parts] (print CleaningUp w1)
      in (r, w2))"

section \<open>\<open>_simple_download\<close>\<close>

definition simple_download :: "env \<Rightarrow> string \<Rightarrow> string \<Rightarrow> int \<Rightarrow> world \<Rightarrow> (exn + unit) \<times> world" where
  "simple_download e url save_path file_size w =
     (let w1 = send (GET url None) (new_pbar w) in
      case served e 0 (GET url None) of
        Refused \<Rightarrow> (Inl TransportError, w1)
      | Response st bufs ab \<Rightarrow>
          (case raise_for_status st of
             Inl x \<Rightarrow> (Inl x, w1)
           | Inr _ \<Rightarrow>
               if unwritable e save_path then (Inl OSError, w1)
               else (let w2 = write_stream save_path bufs (open_wb save_path w1) in
                     if ab then (Inl TransportError, w2)
                     else (Inr (), print SimpleDownloadComplete w2))))"

section \<open>\<open>download\<close>\<close>

text \<open>
  The workers of the pool. Each of them writes its own part file and adds to the shared
  counter, so the state they leave together does not depend on how the threads
  interleave; the model runs them one after the other, in the order of submission.
  The executor's \<open>with\<close> block waits for every worker, whatever the others did.
\<close>

fun run_tasks :: "env \<Rightarrow> nat \<Rightarrow> task list \<Rightarrow> world \<Rightarrow> (exn + bool) list \<times> world" where
  "run_tasks e k [] w = ([], w)"
| "run_tasks e k (t # ts) w =
     (let (r, w1) = download_chunk e k t w;
          (rs, w2) = run_tasks e (Suc k) ts w1
      in (r # rs, w2))"

text \<open>
  Line 113, \<open>[future.result() for future in as_completed(tasks)]\<close>: the list of the
  workers' return values, or the exception of the first worker that raised one.
\<close>

fun collect_results :: "(exn + bool) list \<Rightarrow> exn + bool list" where
  "collect_results [] = Inr []"
| "collect_results (Inl x # rs) = Inl x"
| "collect_results (Inr b # rs) =
     (case collect_results rs of Inl x \<Rightarrow> Inl x | Inr bs \<Rightarrow> Inr (b # bs))"

definition make_tasks :: "string \<Rightarrow> string \<Rightarrow> int \<Rightarrow> int \<Rightarrow> task list" where
  "make_tasks url save_path file_size n =
     map (\<lambda>i. (url, fst (plan_chunk file_size n i), snd (plan_chunk file_size n i),
                part_path save_path i)) [0..<nat n]"

text \<open>
  Line 96 formats \<open>file_size / 1024 / 1024\<close>. The first division is Python's true
  division of two integers, which rounds the exact quotient to the nearest double and
  raises \<open>OverflowError\<close> when that is beyond the largest one: the quotient is exact in
  binary, the largest double is \<open>2 ^ 1024 - 2 ^ 971\<close> and the tie at
  \<open>2 ^ 1024 - 2 ^ 970\<close> rounds away from it, so the division raises for
  \<open>2 ^ 1034 - 2 ^ 980 \<le> \<bar>file_size\<bar>\<close>. The second division is one of doubles and
  cannot raise.
\<close>

definition float_limit :: int where
  "float_limit = 2 ^ 1034 - 2 ^ 980"

definition mb_overflows :: "int \<Rightarrow> bool" where
  "mb_overflows file_size = (float_limit \<le> \<bar>file_size\<bar>)"

text \<open>
  Lines 96--119, the branch of \<open>download\<close> that splits the file. The message of line 96
  is printed unless formatting it raises, the division of line 98 raises
  \<open>ZeroDivisionError\<close> for no thread at all, and \<open>ThreadPoolExecutor\<close> raises
  \<open>ValueError\<close> for a negative number of workers, after the progress bar was made. The
  progress bar is its counter; what \<open>tqdm\<close> displays, and the limits of the interpreter
  on memory, threads and the digits of a printed integer, are left out.
\<close>

definition download_chunked ::
  "env \<Rightarrow> string \<Rightarrow> string \<Rightarrow> string \<Rightarrow> int \<Rightarrow> int \<Rightarrow> world \<Rightarrow> (exn + unit) \<times> world" where
  "download_chunked e url file_name save_path file_size n w =
     (if mb_overflows file_size then (Inl OverflowError, w) else
      let w1 = print (DownloadingUsing file_name file_size n) w in
      if n = 0 then (Inl ZeroDivisionError, w1)
      else if n < 0 then (Inl ValueError, new_pbar w1)
      else (let (outcomes, w2) = run_tasks e 0 (make_tasks url save_path file_size n) (new_pbar w1) in
            case collect_results outcomes of
              Inl x \<Rightarrow> (Inl x, w2)
            | Inr results \<Rightarrow>
                if \<not> list_all (\<lambda>b. b) results then (Inl ConnectionError, w2)
                else (case merge_files e save_path n w2 of
                        (Inl x, w3) \<Rightarrow> (Inl x, w3)
                      | (Inr _, w3) \<Rightarrow> (Inr (), print DownloadComplete w3))))"

text \<open>The body of the \<open>try\<close> of \<open>download\<close>, lines 87--119.\<close>

definition download_try :: "env \<Rightarrow> config \<Rightarrow> world \<Rightarrow> (exn + unit) \<times> world" where
  "download_try e cfg w =
     (case get_download_info e cfg w of
        (Inl x, w1) \<Rightarrow> (Inl x, w1)
      | (Inr (url, file_name, file_size, supports_ranges), w1) \<Rightarrow>
          (let save_path = path_join (download_location cfg) file_name in
           if file_size = 0 \<or> \<not> supports_ranges
           then simple_download e url save_path file_size (print FallbackNotice w1)
           else download_chunked e url file_name save_path file_size (num_threads cfg) w1))"

text \<open>
  \<open>download\<close>: the two handlers of lines 121--124. The second one catches every
  \<open>Exception\<close>, so the result is the exception that leaves the method, if any, and the
  state it leaves.
\<close>

definition download :: "env \<Rightarrow> config \<Rightarrow> world \<Rightarrow> (exn + unit) \<times> world" where
  "download e cfg w =
     (case download_try e cfg w of
        (Inr _, w') \<Rightarrow> (Inr (), w')
      | (Inl x, w') \<Rightarrow>
          if is_RequestException x then (Inr (), print (AnErrorOccurred x) w')
          else (Inr (), print (UnexpectedError x) w'))"

section \<open>The remote resource\<close>

text \<open>
  The bytes of a resource that an inclusive range names (what a server that honours
  \<open>Range: bytes=start-end\<close> sends).
\<close>

definition byte_range :: "bytes \<Rightarrow> chunk \<Rightarrow> bytes" where
  "byte_range r c = take (nat (snd c - fst c + 1)) (drop (nat (fst c)) r)"

section \<open>Notions used to state the properties\<close>

text \<open>The four-tuple a worker receives (the progress bar is part of the state).\<close>

definition task_request :: "task \<Rightarrow> request" where
  "task_request t = (case t of (url, start, end, path) \<Rightarrow> GET url (Some (start, end)))"

definition task_path :: "task \<Rightarrow> string" where
  "task_path t = snd (snd (snd t))"

text \<open>The reply that the \<open>k\<close>-th worker's request receives.\<close>

definition task_reply :: "env \<Rightarrow> nat \<times> task \<Rightarrow> reply" where
  "task_reply e kt = served e (fst kt) (task_request (snd kt))"

text \<open>The condition of \<open>raise_for_status\<close>: a status of the 4xx or 5xx family.\<close>

definition http_error :: "int \<Rightarrow> bool" where
  "http_error st = (400 \<le> st \<and> st < 600)"


text \<open>All the bytes a reply delivers.\<close>

definition reply_body :: "reply \<Rightarrow> bytes" where
  "reply_body r = (case r of Refused \<Rightarrow> [] | Response st bufs ab \<Rightarrow> concat bufs)"

section \<open>Concrete inputs\<close>

definition empty_world :: world where
  "empty_world = \<lparr>files = Map.empty, pbar = 0, printed = [], sent = []\<rparr>"

text \<open>A disk where only the first of two part files of \<open>out\<close> exists, and one with both.\<close>

definition disk_part0 :: world where
  "disk_part0 = \<lparr>files = [''out.part0'' \<mapsto> [1, 2]], pbar = 0, printed = [], sent = []\<rparr>"

definition disk_parts2 :: world where
  "disk_parts2 = \<lparr>files = [''out.part0'' \<mapsto> [1], ''out.part1'' \<mapsto> [2, 3]],
      pbar = 0, printed = [], sent = []\<rparr>"

text \<open>A network that refuses everything, with a disk that accepts every path.\<close>

definition quiet_env :: env where
  "quiet_env = \<lparr>api_href = (\<lambda>u. Inl TransportError), probe = (\<lambda>u. Inl TransportError),
      served = (\<lambda>k r. Refused), filename_param = (\<lambda>u. None), int_of_str = (\<lambda>s. None),
      unwritable = (\<lambda>p. False)\<rparr>"


text \<open>
  A server that holds the resource \<open>r\<close> and honours a well-formed range: it answers it
  with status 206 and the bytes of the range, answers 416 when the range starts beyond the
  resource, and ignores a range whose end precedes its start, sending the whole resource
  with status 200, as it does for a request without a range.
\<close>

definition range_server :: "bytes \<Rightarrow> request \<Rightarrow> reply" where
  "range_server r req =
     (case req of
        GET u (Some c) \<Rightarrow>
          if 0 \<le> fst c \<and> fst c \<le> snd c
          then (if fst c < int (length r) then Response 206 [byte_range r c] False
                else Response 416 [] False)
          else Response 200 [r] False
      | GET u None \<Rightarrow> Response 200 [r] False
      | HEAD u \<Rightarrow> Response 200 [] False)"

text \<open>
  The resolver's answers and the server for a resource of two bytes; \<open>ranges\<close> says
  whether the \<open>HEAD\<close> response advertises \<open>accept-ranges: bytes\<close>.
\<close>

definition two_byte_env :: "bool \<Rightarrow> env" where
  "two_byte_env ranges =
     \<lparr>api_href = (\<lambda>u. Inr ''https://dl.example/get?filename=a.bin''),
      probe = (\<lambda>u. Inr (if ranges
                         then [''content-length'' \<mapsto> ''2'', ''accept-ranges'' \<mapsto> ''bytes'']
                         else [''content-length'' \<mapsto> ''2''])),
      served = (\<lambda>k. range_server [7, 9]),
      filename_param = (\<lambda>u. Some ''a.bin''),
      int_of_str = (\<lambda>s. if s = ''2'' then Some 2 else None),
      unwritable = (\<lambda>p. False)\<rparr>"

definition demo_cfg :: "int \<Rightarrow> config" where
  "demo_cfg n = \<lparr>link = ''https://disk.yandex.ru/d/abc'', download_location = ''dl'', num_threads = n\<rparr>"

section \<open>Properties of the chunk plan\<close>

lemma length_plan: "length (plan S N) = nat N"
  by (simp add: plan_def)

lemma plan_nth: "i < nat N \<Longrightarrow> plan S N ! i = plan_chunk S N i"
  by (simp add: plan_def)

lemma plan_chunk_inner:
  "int i \<noteq> N - 1 \<Longrightarrow> plan_chunk S N i = (int i * (S div N), int i * (S div N) + S div N - 1)"
  by (simp add: plan_chunk_def Let_def)

lemma plan_chunk_last:
  "int i = N - 1 \<Longrightarrow> plan_chunk S N i = ((N - 1) * (S div N), S - 1)"
  by (simp add: plan_chunk_def Let_def)

lemma fst_plan_chunk: "fst (plan_chunk S N i) = int i * (S div N)"
  by (simp add: plan_chunk_def Let_def)

lemma base_nonneg: "0 \<le> S \<Longrightarrow> 1 \<le> N \<Longrightarrow> 0 \<le> S div N" for S N :: int
  by (simp add: pos_imp_zdiv_nonneg_iff)

lemma base_times_le:
  fixes S N k :: int
  assumes "0 \<le> S" and "1 \<le> N" and "k \<le> N"
  shows "k * (S div N) \<le> S"
proof -
  have b: "0 \<le> S div N" using assms(1,2) by (rule base_nonneg)
  have "k * (S div N) \<le> N * (S div N)"
    using assms(3) b by (rule mult_right_mono)
  also have "\<dots> \<le> S"
  proof -
    have "S = N * (S div N) + S mod N" by simp
    moreover have "0 \<le> S mod N" using assms(2) by simp
    ultimately show ?thesis by linarith
  qed
  finally show ?thesis .
qed

lemma plan_chunk_well_formed:
  assumes "0 \<le> S" and "1 \<le> N" and "int i < N"
  shows "0 \<le> fst (plan_chunk S N i)"
    and "fst (plan_chunk S N i) \<le> snd (plan_chunk S N i) + 1"
    and "snd (plan_chunk S N i) + 1 \<le> S"
proof -
  have b: "0 \<le> S div N" using assms(1,2) by (rule base_nonneg)
  show "0 \<le> fst (plan_chunk S N i)"
    using b by (simp add: fst_plan_chunk)
  show "fst (plan_chunk S N i) \<le> snd (plan_chunk S N i) + 1"
  proof (cases "int i = N - 1")
    case True
    have "(N - 1) * (S div N) \<le> S"
      using assms(1,2) by (rule base_times_le) simp
    then show ?thesis by (simp add: plan_chunk_last [OF True])
  next
    case False
    then show ?thesis using b by (simp add: plan_chunk_inner)
  qed
  show "snd (plan_chunk S N i) + 1 \<le> S"
  proof (cases "int i = N - 1")
    case True
    then show ?thesis by (simp add: plan_chunk_last)
  next
    case False
    with assms(3) have "int i + 1 \<le> N" by simp
    with assms(1,2) have "(int i + 1) * (S div N) \<le> S" by (rule base_times_le)
    then show ?thesis by (simp add: plan_chunk_inner [OF False] algebra_simps)
  qed
qed

lemma plan_chunk_disjoint:
  assumes "0 \<le> S" and "1 \<le> N" and "i < j" and "int j < N"
  shows "snd (plan_chunk S N i) < fst (plan_chunk S N j)"
proof -
  have b: "0 \<le> S div N" using assms(1,2) by (rule base_nonneg)
  from assms(3,4) have ne: "int i \<noteq> N - 1" by simp
  from assms(3) have "int i + 1 \<le> int j" by simp
  then have "(int i + 1) * (S div N) \<le> int j * (S div N)"
    using b by (rule mult_right_mono)
  then show ?thesis
    by (simp add: plan_chunk_inner [OF ne] fst_plan_chunk algebra_simps)
qed

lemma plan_chunk_covers:
  assumes "1 \<le> N" and "0 \<le> b" and "b < S"
  shows "\<exists>i. int i < N \<and> fst (plan_chunk S N i) \<le> b \<and> b \<le> snd (plan_chunk S N i)"
proof (cases "(N - 1) * (S div N) \<le> b")
  case True
  define m where "m = nat N - 1"
  have k: "int m = N - 1" unfolding m_def using assms(1) by linarith
  from True assms(3) have "fst (plan_chunk S N m) \<le> b \<and> b \<le> snd (plan_chunk S N m)"
    by (simp add: plan_chunk_last [OF k])
  moreover have "int m < N" using k by simp
  ultimately show ?thesis by blast
next
  case False
  have S: "0 \<le> S" using assms(2,3) by simp
  have b0: "0 \<le> S div N" using S assms(1) by (rule base_nonneg)
  have pos: "0 < S div N"
  proof (rule ccontr)
    assume "\<not> 0 < S div N"
    with b0 have "S div N = 0" by simp
    with False assms(2) show False by simp
  qed
  define q where "q = b div (S div N)"
  have q0: "0 \<le> q" unfolding q_def using assms(2) pos by (simp add: pos_imp_zdiv_nonneg_iff)
  have lo: "q * (S div N) \<le> b"
  proof -
    have "b = (S div N) * q + b mod (S div N)" unfolding q_def by simp
    moreover have "0 \<le> b mod (S div N)" using pos by simp
    ultimately show ?thesis by (simp add: mult.commute)
  qed
  have hi: "b < (q + 1) * (S div N)"
  proof -
    have "b = (S div N) * q + b mod (S div N)" unfolding q_def by simp
    moreover have "b mod (S div N) < S div N" using pos by simp
    ultimately show ?thesis by (simp add: algebra_simps)
  qed
  have qn: "q < N - 1"
  proof (rule ccontr)
    assume "\<not> q < N - 1"
    then have "N - 1 \<le> q" by simp
    then have "(N - 1) * (S div N) \<le> q * (S div N)"
      using b0 by (rule mult_right_mono)
    with lo False show False by simp
  qed
  have i: "int (nat q) = q" using q0 by simp
  have ne: "int (nat q) \<noteq> N - 1" using i qn by simp
  from lo hi q0 have "fst (plan_chunk S N (nat q)) \<le> b \<and> b \<le> snd (plan_chunk S N (nat q))"
    by (simp add: plan_chunk_inner [OF ne] algebra_simps)
  moreover have "int (nat q) < N" using i qn by simp
  ultimately show ?thesis by blast
qed

lemma sum_chunk_len_prefix:
  "int k < N \<Longrightarrow> (\<Sum>i<k. chunk_len (plan_chunk S N i)) = int k * (S div N)"
proof (induction k)
  case 0
  then show ?case by simp
next
  case (Suc k)
  then have "int k \<noteq> N - 1" and "int k < N" by simp_all
  with Suc.IH show ?case
    by (simp add: plan_chunk_inner chunk_len_def algebra_simps)
qed

lemma sum_chunk_len_plan:
  assumes "1 \<le> N"
  shows "sum_list (map chunk_len (plan S N)) = S"
proof -
  obtain k where k: "nat N = Suc k"
    using assms by (cases "nat N") simp_all
  then have N: "N = int k + 1" by linarith
  have "sum_list (map chunk_len (plan S N)) = (\<Sum>i<Suc k. chunk_len (plan_chunk S N i))"
    by (simp add: plan_def k sum_list_sum_nth atLeast0LessThan del: upt_Suc sum.lessThan_Suc)
  also have "\<dots> = (\<Sum>i<k. chunk_len (plan_chunk S N i)) + chunk_len (plan_chunk S N k)"
    by simp
  also have "\<dots> = int k * (S div N) + (S - 1 - (N - 1) * (S div N) + 1)"
  proof -
    have lt: "int k < N" and eq: "int k = N - 1" using N by simp_all
    have "chunk_len (plan_chunk S N k) = S - 1 - (N - 1) * (S div N) + 1"
      by (simp add: plan_chunk_last [OF eq] chunk_len_def)
    with sum_chunk_len_prefix [OF lt] show ?thesis by (simp only:)
  qed
  also have "\<dots> = S"
    using N by (simp add: algebra_simps)
  finally show ?thesis .
qed

text \<open>
  Claim C1. For every total size \<open>S > 0\<close> and worker count \<open>N \<ge> 1\<close> the plan has \<open>N\<close>
  chunks; with \<open>base = S div N\<close>, chunk \<open>i < N - 1\<close> spans
  \<open>[i * base, (i + 1) * base - 1]\<close> and the last chunk spans \<open>[(N - 1) * base, S - 1]\<close>.
  The first chunk starts at offset 0, every chunk ends one byte before the next one
  starts, the last one ends at \<open>S - 1\<close>, and the chunk lengths add up to \<open>S\<close>. Every
  chunk lies within the file (\<open>0 \<le> start \<le> end + 1 \<le> S\<close>), two different chunks have
  no byte in common, and every byte of the file lies in some chunk: the plan is
  contiguous and exhaustive, with no gap and no overlap.
\<close>

theorem plan_contiguous_exhaustive:
  assumes "0 < S" and "1 \<le> N"
  shows "length (plan S N) = nat N
       \<and> (\<forall>i. int i < N - 1 \<longrightarrow>
             plan S N ! i = (int i * (S div N), (int i + 1) * (S div N) - 1))
       \<and> plan S N ! (nat N - 1) = ((N - 1) * (S div N), S - 1)
       \<and> fst (plan S N ! 0) = 0
       \<and> (\<forall>i. int i < N - 1 \<longrightarrow> snd (plan S N ! i) + 1 = fst (plan S N ! Suc i))
       \<and> snd (plan S N ! (nat N - 1)) = S - 1
       \<and> sum_list (map chunk_len (plan S N)) = S
       \<and> (\<forall>i. int i < N \<longrightarrow>
             0 \<le> fst (plan S N ! i) \<and> fst (plan S N ! i) \<le> snd (plan S N ! i) + 1
             \<and> snd (plan S N ! i) + 1 \<le> S)
       \<and> (\<forall>i j. i < j \<and> int j < N \<longrightarrow> snd (plan S N ! i) < fst (plan S N ! j))
       \<and> (\<forall>b. 0 \<le> b \<and> b < S \<longrightarrow>
             (\<exists>i. int i < N \<and> fst (plan S N ! i) \<le> b \<and> b \<le> snd (plan S N ! i)))"
proof -
  have S0: "0 \<le> S" using assms(1) by simp
  have nth: "plan S N ! i = plan_chunk S N i" if "int i < N" for i
    using that by (simp add: plan_nth)
  have spans: "plan S N ! i = (int i * (S div N), (int i + 1) * (S div N) - 1)"
    if "int i < N - 1" for i
  proof -
    from that have "int i < N" and "int i \<noteq> N - 1" by simp_all
    then show ?thesis by (simp add: nth plan_chunk_inner algebra_simps)
  qed
  define m where "m = nat N - 1"
  have m: "int m = N - 1" "int m < N" unfolding m_def using assms(2) by linarith+
  have last_span: "plan S N ! m = ((N - 1) * (S div N), S - 1)"
    using m by (simp add: nth plan_chunk_last)
  have first: "fst (plan S N ! 0) = 0"
    using assms(2) by (simp add: nth fst_plan_chunk)
  have step: "snd (plan S N ! i) + 1 = fst (plan S N ! Suc i)" if "int i < N - 1" for i
  proof -
    from that have "int i < N" and "int (Suc i) < N" and "int i \<noteq> N - 1" by simp_all
    then show ?thesis
      by (simp add: nth plan_chunk_inner fst_plan_chunk algebra_simps)
  qed
  have wf: "0 \<le> fst (plan S N ! i) \<and> fst (plan S N ! i) \<le> snd (plan S N ! i) + 1
             \<and> snd (plan S N ! i) + 1 \<le> S" if "int i < N" for i
    using plan_chunk_well_formed [OF S0 assms(2) that] by (simp add: nth [OF that])
  have disj: "snd (plan S N ! i) < fst (plan S N ! j)" if "i < j \<and> int j < N" for i j
  proof -
    from that have "int i < N" and "int j < N" by simp_all
    with plan_chunk_disjoint [OF S0 assms(2), of i j] that show ?thesis
      by (simp add: nth)
  qed
  have cover: "\<exists>i. int i < N \<and> fst (plan S N ! i) \<le> b \<and> b \<le> snd (plan S N ! i)"
    if "0 \<le> b \<and> b < S" for b
  proof -
    from that plan_chunk_covers [OF assms(2), of b S]
    obtain i where "int i < N" and "fst (plan_chunk S N i) \<le> b \<and> b \<le> snd (plan_chunk S N i)"
      by blast
    then show ?thesis using nth by auto
  qed
  have a: "\<forall>i. int i < N - 1 \<longrightarrow>
             plan S N ! i = (int i * (S div N), (int i + 1) * (S div N) - 1)"
    using spans by blast
  have b: "\<forall>i. int i < N - 1 \<longrightarrow> snd (plan S N ! i) + 1 = fst (plan S N ! Suc i)"
    using step by blast
  have c: "\<forall>i. int i < N \<longrightarrow>
             0 \<le> fst (plan S N ! i) \<and> fst (plan S N ! i) \<le> snd (plan S N ! i) + 1
             \<and> snd (plan S N ! i) + 1 \<le> S"
    using wf by blast
  have d: "\<forall>i j. i < j \<and> int j < N \<longrightarrow> snd (plan S N ! i) < fst (plan S N ! j)"
    using disj by blast
  have e: "\<forall>b. 0 \<le> b \<and> b < S \<longrightarrow>
             (\<exists>i. int i < N \<and> fst (plan S N ! i) \<le> b \<and> b \<le> snd (plan S N ! i))"
    using cover by blast
  have l: "snd (plan S N ! m) = S - 1" using last_span by simp
  show ?thesis
    using length_plan [of S N] a last_span first b l sum_chunk_len_plan [OF assms(2), of S] c d e
    unfolding m_def by (intro conjI)
qed

theorem plan_contiguous_exhaustive_witness:
  "plan 10 3 = [(0, 2), (3, 5), (6, 9)]
   \<and> length (plan 10 3) = nat 3
   \<and> plan 10 3 ! 0 = (int 0 * (10 div 3), (int 0 + 1) * (10 div 3) - 1)
   \<and> plan 10 3 ! 1 = (int 1 * (10 div 3), (int 1 + 1) * (10 div 3) - 1)
   \<and> plan 10 3 ! (nat 3 - 1) = ((3 - 1) * (10 div 3), 10 - 1)
   \<and> fst (plan 10 3 ! 0) = 0
   \<and> snd (plan 10 3 ! 0) + 1 = fst (plan 10 3 ! 1)
   \<and> snd (plan 10 3 ! 1) + 1 = fst (plan 10 3 ! 2)
   \<and> snd (plan 10 3 ! (nat 3 - 1)) = 10 - 1
   \<and> sum_list (map chunk_len (plan 10 3)) = 10
   \<and> snd (plan 10 3 ! 0) < fst (plan 10 3 ! 2)
   \<and> fst (plan 10 3 ! 1) \<le> 4 \<and> 4 \<le> snd (plan 10 3 ! 1)"
proof -
  have p: "plan 10 3 = [(0, 2), (3, 5), (6, 9)]"
    by (simp add: plan_def plan_chunk_def Let_def upt_rec)
  have "(0::int) < 10" and "(1::int) \<le> 3" by simp_all
  from plan_contiguous_exhaustive [OF this] p show ?thesis
    by (simp add: chunk_len_def)
qed

section \<open>How the primitive operations change the state\<close>

lemma files_print [simp]: "files (print m w) = files w"
  and pbar_print [simp]: "pbar (print m w) = pbar w"
  and sent_print [simp]: "sent (print m w) = sent w"
  and printed_print [simp]: "printed (print m w) = printed w @ [m]"
  by (simp_all add: print_def)

lemma files_send [simp]: "files (send r w) = files w"
  and pbar_send [simp]: "pbar (send r w) = pbar w"
  and sent_send [simp]: "sent (send r w) = sent w @ [r]"
  and printed_send [simp]: "printed (send r w) = printed w"
  by (simp_all add: send_def)

lemma files_new_pbar [simp]: "files (new_pbar w) = files w"
  and pbar_new_pbar [simp]: "pbar (new_pbar w) = 0"
  and sent_new_pbar [simp]: "sent (new_pbar w) = sent w"
  and printed_new_pbar [simp]: "printed (new_pbar w) = printed w"
  by (simp_all add: new_pbar_def)

lemma files_pbar_update [simp]: "files (pbar_update k w) = files w"
  and pbar_pbar_update [simp]: "pbar (pbar_update k w) = pbar w + k"
  and sent_pbar_update [simp]: "sent (pbar_update k w) = sent w"
  and printed_pbar_update [simp]: "printed (pbar_update k w) = printed w"
  by (simp_all add: pbar_update_def)

lemma files_open_wb [simp]: "files (open_wb p w) = (files w)(p \<mapsto> [])"
  and pbar_open_wb [simp]: "pbar (open_wb p w) = pbar w"
  and sent_open_wb [simp]: "sent (open_wb p w) = sent w"
  and printed_open_wb [simp]: "printed (open_wb p w) = printed w"
  by (simp_all add: open_wb_def)

lemma files_write_file [simp]:
  "files (write_file p d w) = (files w)(p \<mapsto> (case files w p of None \<Rightarrow> [] | Some old \<Rightarrow> old) @ d)"
  and pbar_write_file [simp]: "pbar (write_file p d w) = pbar w"
  and sent_write_file [simp]: "sent (write_file p d w) = sent w"
  and printed_write_file [simp]: "printed (write_file p d w) = printed w"
  by (simp_all add: write_file_def)

lemma files_remove_if_exists [simp]: "files (remove_if_exists p w) = (files w)(p := None)"
  and pbar_remove_if_exists [simp]: "pbar (remove_if_exists p w) = pbar w"
  and sent_remove_if_exists [simp]: "sent (remove_if_exists p w) = sent w"
  and printed_remove_if_exists [simp]: "printed (remove_if_exists p w) = printed w"
  by (auto simp add: remove_if_exists_def)

lemma files_write_stream_other: "q \<noteq> p \<Longrightarrow> files (write_stream p bufs w) q = files w q"
  by (induction bufs arbitrary: w) simp_all

lemma files_write_stream_same:
  "files w p = Some old \<Longrightarrow> files (write_stream p bufs w) p = Some (old @ concat bufs)"
  by (induction bufs arbitrary: w old) simp_all

lemma pbar_write_stream: "pbar (write_stream p bufs w) = pbar w + int (length (concat bufs))"
  by (induction bufs arbitrary: w) simp_all

lemma sent_write_stream [simp]: "sent (write_stream p bufs w) = sent w"
  by (induction bufs arbitrary: w) simp_all

lemma printed_write_stream [simp]: "printed (write_stream p bufs w) = printed w"
  by (induction bufs arbitrary: w) simp_all

section \<open>Part paths are distinct\<close>

lemma digit_char_inj: "a < 10 \<Longrightarrow> b < 10 \<Longrightarrow> digit_char a = digit_char b \<Longrightarrow> a = b"
  by (simp add: digit_char_def char_of_eq_iff take_bit_eq_mod)

lemma str_nat_not_Nil [simp]: "str_nat n \<noteq> []" "[] \<noteq> str_nat n"
  by (subst str_nat.simps, simp)+

lemma str_nat_inj: "str_nat n = str_nat m \<Longrightarrow> n = m"
proof (induction n arbitrary: m rule: str_nat.induct)
  case (1 n)
  show ?case
  proof (cases "n < 10")
    case True
    then have n: "str_nat n = [digit_char n]" by (subst str_nat.simps) simp
    show ?thesis
    proof (cases "m < 10")
      case True
      then have "str_nat m = [digit_char m]" by (subst str_nat.simps) simp
      with n "1.prems" \<open>n < 10\<close> True show ?thesis by (simp add: digit_char_inj)
    next
      case False
      then have "str_nat m = str_nat (m div 10) @ [digit_char (m mod 10)]"
        by (subst str_nat.simps) simp
      with n "1.prems" show ?thesis by simp
    qed
  next
    case False
    then have n: "str_nat n = str_nat (n div 10) @ [digit_char (n mod 10)]"
      by (subst str_nat.simps) simp
    show ?thesis
    proof (cases "m < 10")
      case True
      then have "str_nat m = [digit_char m]" by (subst str_nat.simps) simp
      with n "1.prems" show ?thesis by simp
    next
      case m: False
      then have "str_nat m = str_nat (m div 10) @ [digit_char (m mod 10)]"
        by (subst str_nat.simps) simp
      with n "1.prems" have a: "str_nat (n div 10) = str_nat (m div 10)"
        and b: "digit_char (n mod 10) = digit_char (m mod 10)" by simp_all
      from "1.IH" [OF False a] have "n div 10 = m div 10" .
      moreover from b have "n mod 10 = m mod 10" by (simp add: digit_char_inj)
      ultimately show ?thesis by (metis div_mult_mod_eq)
    qed
  qed
qed

lemma part_path_inj [simp]: "part_path f i = part_path f j \<longleftrightarrow> i = j"
  by (auto simp: part_path_def dest: str_nat_inj)

lemma part_path_neq_final [simp]: "part_path f i \<noteq> f" "f \<noteq> part_path f i"
  by (simp_all add: part_path_def)

section \<open>The merge\<close>

lemma files_cleanup_loop:
  "files (cleanup_loop f js w) p = (if p \<in> part_path f ` set js then None else files w p)"
  by (induction js arbitrary: w) auto

lemma pbar_cleanup_loop [simp]: "pbar (cleanup_loop f js w) = pbar w"
  by (induction js arbitrary: w) simp_all

lemma sent_cleanup_loop [simp]: "sent (cleanup_loop f js w) = sent w"
  by (induction js arbitrary: w) simp_all

lemma printed_cleanup_loop [simp]: "printed (cleanup_loop f js w) = printed w"
  by (induction js arbitrary: w) simp_all

lemma merge_loop_complete:
  assumes "files w f = Some acc"
    and "\<forall>i \<in> set js. files w (part_path f i) = Some (parts i)"
  shows "fst (merge_loop f js w) = Inr ()
       \<and> files (snd (merge_loop f js w)) = (files w)(f \<mapsto> acc @ concat (map parts js))"
  using assms
proof (induction js arbitrary: w acc)
  case Nil
  then show ?case by (simp add: fun_upd_idem)
next
  case (Cons i js)
  let ?w = "write_file f (parts i) w"
  have "files ?w f = Some (acc @ parts i)"
    using Cons.prems by simp
  moreover have "\<forall>j \<in> set js. files ?w (part_path f j) = Some (parts j)"
    using Cons.prems by simp
  ultimately have "fst (merge_loop f js ?w) = Inr ()
       \<and> files (snd (merge_loop f js ?w)) = (files ?w)(f \<mapsto> (acc @ parts i) @ concat (map parts js))"
    by (rule Cons.IH)
  then show ?case using Cons.prems by simp
qed


lemma printed_merge_loop [simp]: "printed (snd (merge_loop f js w)) = printed w"
  by (induction js arbitrary: w) (simp_all split: option.splits)

lemma pbar_merge_loop [simp]: "pbar (snd (merge_loop f js w)) = pbar w"
  by (induction js arbitrary: w) (simp_all split: option.splits)

lemma sent_merge_loop [simp]: "sent (snd (merge_loop f js w)) = sent w"
  by (induction js arbitrary: w) (simp_all split: option.splits)

lemma fst_merge_files:
  "fst (merge_files e f n w) =
     (if unwritable e f then Inl OSError
      else fst (merge_loop f [0..<nat n] (open_wb f (print (Merging n (basename f)) w))))"
  by (simp add: merge_files_def Let_def split_beta)

lemma files_merge_files:
  "files (snd (merge_files e f n w)) p =
     (if p \<in> part_path f ` {i. i < nat n} then None
      else if unwritable e f then files w p
      else files (snd (merge_loop f [0..<nat n] (open_wb f (print (Merging n (basename f)) w)))) p)"
  by (simp add: merge_files_def Let_def split_beta files_cleanup_loop lessThan_def[symmetric] atLeast0LessThan)

lemma byte_range_inner:
  assumes "1 \<le> n" and "int i \<noteq> n - 1"
  shows "byte_range r (plan_chunk (int (length r)) n i) =
           take (length r div nat n) (drop (i * (length r div nat n)) r)"
proof -
  have d: "int (length r) div n = int (length r div nat n)"
    using assms(1) zdiv_int [of "length r" "nat n"] by simp
  have "nat (int i * int (length r div nat n)) = i * (length r div nat n)"
    by (simp flip: of_nat_mult)
  then show ?thesis
    by (simp add: plan_chunk_inner [OF assms(2)] byte_range_def d)
qed

lemma byte_range_last:
  assumes "1 \<le> n" and "int i = n - 1"
  shows "byte_range r (plan_chunk (int (length r)) n i) = drop (i * (length r div nat n)) r"
proof -
  have d: "int (length r) div n = int (length r div nat n)"
    using assms(1) zdiv_int [of "length r" "nat n"] by simp
  have m: "(n - 1) * int (length r div nat n) = int (i * (length r div nat n))"
    using assms(2) by simp
  have "nat (int (length r) - int (i * (length r div nat n))) = length r - i * (length r div nat n)"
    by linarith
  then show ?thesis
    by (simp add: plan_chunk_last [OF assms(2)] byte_range_def d m del: of_nat_mult)
qed

lemma concat_byte_range_prefix:
  assumes "1 \<le> n"
  shows "int k \<le> n - 1 \<Longrightarrow>
         concat (map (\<lambda>i. byte_range r (plan_chunk (int (length r)) n i)) [0..<k]) =
           take (k * (length r div nat n)) r"
proof (induction k)
  case 0
  then show ?case by simp
next
  case (Suc k)
  then have "int k \<noteq> n - 1" and "int k \<le> n - 1" by simp_all
  moreover have "take (Suc k * (length r div nat n)) r =
      take (k * (length r div nat n)) r @
      take (length r div nat n) (drop (k * (length r div nat n)) r)"
    using take_add [of "k * (length r div nat n)" "length r div nat n" r]
    by (simp add: add.commute)
  ultimately show ?case
    using Suc.IH by (simp add: byte_range_inner [OF assms] del: mult_Suc)
qed

lemma concat_byte_range_plan:
  assumes "1 \<le> n"
  shows "concat (map (\<lambda>i. byte_range r (plan_chunk (int (length r)) n i)) [0..<nat n]) = r"
proof -
  obtain k where k: "nat n = Suc k"
    using assms by (cases "nat n") simp_all
  then have kn: "int k = n - 1" by linarith
  then have "int k \<le> n - 1" by simp
  from concat_byte_range_prefix [OF assms this, of r] byte_range_last [OF assms kn, of r]
  show ?thesis by (simp add: k)
qed

text \<open>
  Claim C7. After \<open>_merge_files\<close>, whether it returned or raised, none of the part files
  \<open>final_path.part0 .. final_path.part(n - 1)\<close> exists: the cleanup of the \<open>finally\<close>
  block runs on every exit path.
\<close>

theorem merge_cleanup:
  "\<forall>i. int i < n \<longrightarrow> files (snd (merge_files e f n w)) (part_path f i) = None"
  by (simp add: files_merge_files)

theorem merge_cleanup_witness:
  "fst (merge_files quiet_env ''out'' 2 disk_part0) = Inl (FileNotFoundError ''out.part1'')
   \<and> files (snd (merge_files quiet_env ''out'' 2 disk_part0)) (part_path ''out'' 0) = None
   \<and> files (snd (merge_files quiet_env ''out'' 2 disk_part0)) (part_path ''out'' 1) = None
   \<and> fst (merge_files quiet_env ''out'' 2 disk_parts2) = Inr ()
   \<and> files (snd (merge_files quiet_env ''out'' 2 disk_parts2)) (part_path ''out'' 0) = None
   \<and> files (snd (merge_files quiet_env ''out'' 2 disk_parts2)) (part_path ''out'' 1) = None"
proof -
  have a: "fst (merge_files quiet_env ''out'' 2 disk_part0) = Inl (FileNotFoundError ''out.part1'')"
    and b: "fst (merge_files quiet_env ''out'' 2 disk_parts2) = Inr ()"
    by code_simp+
  from merge_cleanup [of 2 quiet_env "''out''" disk_part0]
    merge_cleanup [of 2 quiet_env "''out''" disk_parts2] a b
  show ?thesis by simp
qed

section \<open>The workers\<close>

lemma raise_for_status_cases:
  "raise_for_status st = (if http_error st then Inl (HTTPError st) else Inr ())"
  by (simp add: raise_for_status_def http_error_def)


lemma files_download_chunk_other:
  "p \<noteq> task_path t \<Longrightarrow> files (snd (download_chunk e k t w)) p = files w p"
  by (cases t) (simp add: download_chunk_def download_chunk_try_def task_path_def
      raise_for_status_cases Let_def files_write_stream_other split: reply.splits)


lemma download_chunk_True:
  assumes "fst (download_chunk e k (url, s, en, path) w) = Inr True"
  shows "\<exists>st bufs. served e k (GET url (Some (s, en))) = Response st bufs False
          \<and> \<not> http_error st \<and> \<not> unwritable e path"
    and "files (snd (download_chunk e k (url, s, en, path) w)) =
           (files w)(path \<mapsto> reply_body (served e k (GET url (Some (s, en)))))"
    and "pbar (snd (download_chunk e k (url, s, en, path) w)) =
           pbar w + int (length (reply_body (served e k (GET url (Some (s, en))))))"
    and "printed (snd (download_chunk e k (url, s, en, path) w)) = printed w"
  using assms
  by (auto simp add: download_chunk_def download_chunk_try_def reply_body_def
      raise_for_status_cases Let_def files_write_stream_other files_write_stream_same
      pbar_write_stream
      split: reply.splits if_splits)



lemma run_tasks_Cons:
  "run_tasks e k (t # ts) w =
     (fst (download_chunk e k t w) # fst (run_tasks e (Suc k) ts (snd (download_chunk e k t w))),
      snd (run_tasks e (Suc k) ts (snd (download_chunk e k t w))))"
  by (simp add: split_beta)

declare run_tasks.simps(2) [simp del]



lemma files_run_tasks_other:
  "p \<notin> task_path ` set ts \<Longrightarrow> files (snd (run_tasks e k ts w)) p = files w p"
  by (induction ts arbitrary: k w) (simp_all add: run_tasks_Cons files_download_chunk_other)


lemma run_tasks_all_True:
  assumes "\<forall>r \<in> set (fst (run_tasks e k ts w)). r = Inr True"
    and "distinct (map task_path ts)"
  shows "pbar (snd (run_tasks e k ts w)) =
           pbar w + (\<Sum>kt\<leftarrow>enumerate k ts. int (length (reply_body (task_reply e kt))))
       \<and> (\<forall>kt \<in> set (enumerate k ts).
           files (snd (run_tasks e k ts w)) (task_path (snd kt)) = Some (reply_body (task_reply e kt)))
       \<and> printed (snd (run_tasks e k ts w)) = printed w"
  using assms
proof (induction ts arbitrary: k w)
  case Nil
  show ?case by simp
next
  case (Cons t ts)
  obtain url s en path where t: "t = (url, s, en, path)" by (cases t) auto
  define w1 where "w1 = snd (download_chunk e k t w)"
  have step: "run_tasks e k (t # ts) w =
      (fst (download_chunk e k t w) # fst (run_tasks e (Suc k) ts w1), snd (run_tasks e (Suc k) ts w1))"
    by (simp add: run_tasks_Cons w1_def)
  from Cons.prems(1) have h0: "fst (download_chunk e k t w) = Inr True"
    and rest: "\<forall>r \<in> set (fst (run_tasks e (Suc k) ts w1)). r = Inr True"
    by (simp_all add: step)
  from Cons.prems(2) have d: "distinct (map task_path ts)"
    and nin: "task_path t \<notin> task_path ` set ts"
    by simp_all
  from h0 have h: "fst (download_chunk e k (url, s, en, path) w) = Inr True"
    by (simp add: t)
  have r: "task_reply e (k, t) = served e k (GET url (Some (s, en)))"
    by (simp add: t task_reply_def task_request_def)
  have p1: "pbar w1 = pbar w + int (length (reply_body (task_reply e (k, t))))"
    using download_chunk_True(3) [OF h] unfolding w1_def r by (simp add: t)
  have f1: "files w1 (task_path t) = Some (reply_body (task_reply e (k, t)))"
    using download_chunk_True(2) [OF h] unfolding w1_def r by (simp add: t task_path_def)
  have q1: "printed w1 = printed w"
    using download_chunk_True(4) [OF h] by (simp add: w1_def t)
  note IH = Cons.IH [OF rest d]
  have "files (snd (run_tasks e (Suc k) ts w1)) (task_path t) = files w1 (task_path t)"
    using nin by (rule files_run_tasks_other)
  with f1 have f2: "files (snd (run_tasks e (Suc k) ts w1)) (task_path t) =
      Some (reply_body (task_reply e (k, t)))" by simp
  show ?case
    using IH p1 f2 q1 by (simp add: step)
qed

lemma collect_results_Inr:
  "collect_results rs = Inr bs \<Longrightarrow> rs = map Inr bs"
proof (induction rs arbitrary: bs rule: collect_results.induct)
  case 1
  then show ?case by simp
next
  case (2 x rs)
  then show ?case by simp
next
  case (3 b rs)
  then show ?case by (auto split: sum.splits)
qed


lemma collect_results_all_True:
  "collect_results rs = Inr bs \<Longrightarrow> list_all (\<lambda>b. b) bs \<Longrightarrow> \<forall>r \<in> set rs. r = Inr True"
  by (auto dest!: collect_results_Inr simp: list_all_iff)

lemma task_path_make_tasks: "map task_path (make_tasks url save S n) = map (part_path save) [0..<nat n]"
  by (simp add: make_tasks_def task_path_def)


lemma distinct_make_tasks: "distinct (map task_path (make_tasks url save S n))"
  by (simp add: task_path_make_tasks distinct_map inj_on_def)











section \<open>The fetcher\<close>



section \<open>The choice between the two paths\<close>




lemma sent_merge_files [simp]: "sent (snd (merge_files e f n w)) = sent w"
  by (simp add: merge_files_def Let_def split_beta)

lemma pbar_merge_files [simp]: "pbar (snd (merge_files e f n w)) = pbar w"
  by (simp add: merge_files_def Let_def split_beta)






section \<open>The progress counter\<close>

lemma merge_files_all_parts:
  assumes "\<not> unwritable e f"
    and "\<forall>i. int i < n \<longrightarrow> files w (part_path f i) = Some (parts i)"
  shows "fst (merge_files e f n w) = Inr ()"
    and "files (snd (merge_files e f n w)) f = Some (concat (map parts [0..<nat n]))"
proof -
  let ?w = "open_wb f (print (Merging n (basename f)) w)"
  have "files ?w f = Some []" by simp
  moreover have "\<forall>i \<in> set [0..<nat n]. files ?w (part_path f i) = Some (parts i)"
    using assms(2) by simp
  ultimately have loop: "fst (merge_loop f [0..<nat n] ?w) = Inr ()
       \<and> files (snd (merge_loop f [0..<nat n] ?w)) = (files ?w)(f \<mapsto> [] @ concat (map parts [0..<nat n]))"
    by (rule merge_loop_complete)
  show "fst (merge_files e f n w) = Inr ()"
    using assms(1) loop by (simp add: fst_merge_files)
  show "files (snd (merge_files e f n w)) f = Some (concat (map parts [0..<nat n]))"
    using assms(1) loop by (auto simp add: files_merge_files)
qed

lemma int_length_concat: "int (length (concat xss)) = (\<Sum>xs\<leftarrow>xss. int (length xs))"
  by (induction xss) simp_all

lemma enumerate_make_tasks:
  "enumerate 0 (make_tasks url save S n) =
     map (\<lambda>i. (i, url, fst (plan_chunk S n i), snd (plan_chunk S n i), part_path save i)) [0..<nat n]"
  unfolding make_tasks_def by (rule enumerate_map_upt)

text \<open>The state a chunked job that ends well has passed through.\<close>

lemma download_chunked_success:
  assumes "fst (download_chunked e url fn save S n w) = Inr ()"
  defines "part \<equiv> \<lambda>i. reply_body (served e i (GET url (Some (plan_chunk S n i))))"
  shows "1 \<le> n"
    and "files (snd (download_chunked e url fn save S n w)) save = Some (concat (map part [0..<nat n]))"
    and "pbar (snd (download_chunked e url fn save S n w)) = (\<Sum>i\<leftarrow>[0..<nat n]. int (length (part i)))"
proof -
  let ?ts = "make_tasks url save S n"
  let ?w0 = "new_pbar (print (DownloadingUsing fn S n) w)"
  let ?w2 = "snd (run_tasks e 0 ?ts ?w0)"
  from assms(1) show n: "1 \<le> n"
    by (auto simp add: download_chunked_def Let_def split: if_splits)
  then have n0: "n \<noteq> 0" "\<not> n < 0" by simp_all
  from assms(1) have nov: "\<not> mb_overflows S"
    by (auto simp add: download_chunked_def)
  from assms(1) n0 nov obtain results where
      c: "collect_results (fst (run_tasks e 0 ?ts ?w0)) = Inr results"
      and a: "list_all (\<lambda>b. b) results"
      and m: "fst (merge_files e save n ?w2) = Inr ()"
      and r: "snd (download_chunked e url fn save S n w) = print DownloadComplete (snd (merge_files e save n ?w2))"
    by (auto simp add: download_chunked_def Let_def split_beta split: sum.splits if_splits)
  from c a have "\<forall>r \<in> set (fst (run_tasks e 0 ?ts ?w0)). r = Inr True"
    by (rule collect_results_all_True)
  from run_tasks_all_True [OF this distinct_make_tasks]
  have p: "pbar ?w2 = pbar ?w0 + (\<Sum>kt\<leftarrow>enumerate 0 ?ts. int (length (reply_body (task_reply e kt))))"
    and f: "\<forall>kt \<in> set (enumerate 0 ?ts). files ?w2 (task_path (snd kt)) = Some (reply_body (task_reply e kt))"
    by simp_all
  have tr: "task_reply e (i, url, fst (plan_chunk S n i), snd (plan_chunk S n i), part_path save i) = 
      served e i (GET url (Some (plan_chunk S n i)))" for i
    by (simp add: task_reply_def task_request_def)
  have parts: "\<forall>i. int i < n \<longrightarrow> files ?w2 (part_path save i) = Some (part i)"
    using f by (auto simp add: enumerate_make_tasks task_path_def tr part_def)
  have w: "\<not> unwritable e save"
    using m by (auto simp add: fst_merge_files split: if_splits)
  show "files (snd (download_chunked e url fn save S n w)) save = Some (concat (map part [0..<nat n]))"
    using merge_files_all_parts(2) [OF w parts] by (simp add: r)
  show "pbar (snd (download_chunked e url fn save S n w)) = (\<Sum>i\<leftarrow>[0..<nat n]. int (length (part i)))"
    using p by (simp add: r enumerate_make_tasks comp_def tr part_def)
qed

lemma simple_download_success:
  assumes "fst (simple_download e url save S w) = Inr ()"
  shows "files (snd (simple_download e url save S w)) save = Some (reply_body (served e 0 (GET url None)))"
    and "pbar (snd (simple_download e url save S w)) = int (length (reply_body (served e 0 (GET url None))))"
  using assms
  by (auto simp add: simple_download_def Let_def raise_for_status_cases reply_body_def
      files_write_stream_same pbar_write_stream split: reply.splits if_splits)

text \<open>
  Claim C9, as amended. After a chunked job that ends well the final file is the
  concatenation of the bodies the workers received, and the progress counter equals the
  number of bytes written, the length of that file; it equals the resolved size \<open>S\<close> when
  every response delivered exactly the bytes of its chunk. After a fallback download that
  ends well the counter equals the number of bytes streamed into the final file.
\<close>

theorem progress_total:
  "(fst (download_chunked e url fn save S n w) = Inr () \<longrightarrow>
      files (snd (download_chunked e url fn save S n w)) save =
        Some (concat (map (\<lambda>i. reply_body (served e i (GET url (Some (plan_chunk S n i))))) [0..<nat n]))
      \<and> pbar (snd (download_chunked e url fn save S n w)) =
          int (length (concat (map (\<lambda>i. reply_body (served e i (GET url (Some (plan_chunk S n i))))) [0..<nat n])))
      \<and> ((\<forall>i. int i < n \<longrightarrow>
              int (length (reply_body (served e i (GET url (Some (plan_chunk S n i)))))) =
                chunk_len (plan_chunk S n i))
           \<longrightarrow> pbar (snd (download_chunked e url fn save S n w)) = S))
   \<and> (fst (simple_download e url save S w) = Inr () \<longrightarrow>
      files (snd (simple_download e url save S w)) save = Some (reply_body (served e 0 (GET url None)))
      \<and> pbar (snd (simple_download e url save S w)) =
          int (length (reply_body (served e 0 (GET url None)))))"
proof -
  let ?part = "\<lambda>i. reply_body (served e i (GET url (Some (plan_chunk S n i))))"
  have chunked: "files (snd (download_chunked e url fn save S n w)) save = Some (concat (map ?part [0..<nat n]))
      \<and> pbar (snd (download_chunked e url fn save S n w)) = int (length (concat (map ?part [0..<nat n])))
      \<and> ((\<forall>i. int i < n \<longrightarrow> int (length (?part i)) = chunk_len (plan_chunk S n i))
           \<longrightarrow> pbar (snd (download_chunked e url fn save S n w)) = S)"
    if ok: "fst (download_chunked e url fn save S n w) = Inr ()"
  proof -
    note s = download_chunked_success [OF ok]
    have total: "pbar (snd (download_chunked e url fn save S n w)) = int (length (concat (map ?part [0..<nat n])))"
      using s(3) by (simp add: int_length_concat comp_def)
    have "pbar (snd (download_chunked e url fn save S n w)) = S"
      if exact: "\<forall>i. int i < n \<longrightarrow> int (length (?part i)) = chunk_len (plan_chunk S n i)"
    proof -
      have "map (\<lambda>i. int (length (?part i))) [0..<nat n] = map chunk_len (plan S n)"
        using exact by (simp add: plan_def)
      with s(3) sum_chunk_len_plan [OF s(1), of S] show ?thesis by simp
    qed
    with s(2) total show ?thesis by blast
  qed
  from chunked simple_download_success [of e url save S w] show ?thesis by blast
qed

text \<open>
  The counter is not the resolved size in general. For a resource of 2 bytes and 3
  threads the first two ranges are \<open>0..-1\<close>; the server ignores them and sends the whole
  resource, the job ends well and the counter stands at 6.
\<close>

theorem progress_total_counterexample:
  "fst (get_download_info (two_byte_env True) (demo_cfg 3) empty_world) =
      Inr (''https://dl.example/get?filename=a.bin'', ''a.bin'', 2, True)
   \<and> fst (download_chunked (two_byte_env True) ''https://dl.example/get?filename=a.bin''
           ''a.bin'' ''dl/a.bin'' 2 3 empty_world) = Inr ()
   \<and> pbar (snd (download_chunked (two_byte_env True) ''https://dl.example/get?filename=a.bin''
           ''a.bin'' ''dl/a.bin'' 2 3 empty_world)) = 6"
  by code_simp

theorem progress_total_witness:
  "fst (download_chunked (two_byte_env True) ''u'' ''a.bin'' ''dl/a.bin'' 2 2 empty_world) = Inr ()
   \<and> files (snd (download_chunked (two_byte_env True) ''u'' ''a.bin'' ''dl/a.bin'' 2 2 empty_world))
        ''dl/a.bin'' = Some [7, 9]
   \<and> pbar (snd (download_chunked (two_byte_env True) ''u'' ''a.bin'' ''dl/a.bin'' 2 2 empty_world)) = 2
   \<and> fst (simple_download (two_byte_env False) ''u'' ''dl/a.bin'' 2 empty_world) = Inr ()
   \<and> pbar (snd (simple_download (two_byte_env False) ''u'' ''dl/a.bin'' 2 empty_world)) = 2"
proof -
  have ok: "fst (download_chunked (two_byte_env True) ''u'' ''a.bin'' ''dl/a.bin'' 2 2 empty_world) = Inr ()"
    and ok': "fst (simple_download (two_byte_env False) ''u'' ''dl/a.bin'' 2 empty_world) = Inr ()"
    by code_simp+
  have b0: "reply_body (served (two_byte_env True) 0 (GET ''u'' (Some (plan_chunk 2 2 0)))) = [7]"
    and b1: "reply_body (served (two_byte_env True) 1 (GET ''u'' (Some (plan_chunk 2 2 1)))) = [9]"
    and b: "reply_body (served (two_byte_env False) 0 (GET ''u'' None)) = [7, 9]"
    by (simp_all add: two_byte_env_def range_server_def reply_body_def plan_chunk_def byte_range_def Let_def)
  have two: "i = 0 \<or> i = 1" if "int i < 2" for i
    using that by linarith
  have exact: "\<forall>i. int i < 2 \<longrightarrow>
      int (length (reply_body (served (two_byte_env True) i (GET ''u'' (Some (plan_chunk 2 2 i)))))) =
        chunk_len (plan_chunk 2 2 i)"
  proof (intro allI impI)
    fix i :: nat
    assume "int i < 2"
    then have "i = 0 \<or> i = 1" by (rule two)
    then show "int (length (reply_body (served (two_byte_env True) i (GET ''u'' (Some (plan_chunk 2 2 i)))))) =
        chunk_len (plan_chunk 2 2 i)"
      using b0 b1 by (auto simp add: chunk_len_def plan_chunk_def Let_def)
  qed
  note t = progress_total [of "two_byte_env True" "''u''" "''a.bin''" "''dl/a.bin''" 2 2 empty_world]
  note t' = progress_total [of "two_byte_env False" "''u''" _ "''dl/a.bin''" 2 _ empty_world]
  have "files (snd (download_chunked (two_byte_env True) ''u'' ''a.bin'' ''dl/a.bin'' 2 2 empty_world))
        ''dl/a.bin'' = Some (concat (map (\<lambda>i. reply_body (served (two_byte_env True) i
            (GET ''u'' (Some (plan_chunk 2 2 i))))) [0..<nat 2]))"
    using t ok by blast
  moreover have "pbar (snd (download_chunked (two_byte_env True) ''u'' ''a.bin'' ''dl/a.bin'' 2 2 empty_world)) = 2"
    using t ok exact by blast
  moreover have "pbar (snd (simple_download (two_byte_env False) ''u'' ''dl/a.bin'' 2 empty_world)) =
      int (length (reply_body (served (two_byte_env False) 0 (GET ''u'' None))))"
    using t' ok' by blast
  ultimately show ?thesis
    using ok ok' b0 b1 b by (simp add: upt_rec)
qed

section \<open>The round trip\<close>

text \<open>
  Claim C3, as amended. When every part file \<open>0 .. n - 1\<close> exists and the final path can
  be opened, the merge returns normally and the final file is the concatenation of the
  part files' contents in the order of their indices, byte for byte; so the final file
  of a job that ends well is the concatenation, in the order of the chunks, of the
  bodies its workers received. It is the remote resource \<open>r\<close> when every part holds
  exactly the bytes of \<open>r\<close> in the range planned for it.
\<close>

theorem merge_concat_in_order:
  assumes "\<not> unwritable e f"
    and "\<forall>i. int i < n \<longrightarrow> files w (part_path f i) = Some (parts i)"
  shows "fst (merge_files e f n w) = Inr ()
       \<and> files (snd (merge_files e f n w)) f = Some (concat (map parts [0..<nat n]))
       \<and> (1 \<le> n \<and> (\<forall>i. int i < n \<longrightarrow> parts i = byte_range r (plan_chunk (int (length r)) n i))
            \<longrightarrow> files (snd (merge_files e f n w)) f = Some r)
       \<and> (fst (download_chunked e url fn f S n w0) = Inr () \<longrightarrow>
            files (snd (download_chunked e url fn f S n w0)) f =
              Some (concat (map (\<lambda>i. reply_body (served e i (GET url (Some (plan_chunk S n i)))))
                     [0..<nat n])))
       \<and> (fst (download_chunked e url fn f S n w0) = Inr () \<and> S = int (length r)
            \<and> (\<forall>i. int i < n \<longrightarrow>
                  reply_body (served e i (GET url (Some (plan_chunk S n i)))) =
                    byte_range r (plan_chunk S n i))
            \<longrightarrow> files (snd (download_chunked e url fn f S n w0)) f = Some r)"
proof -
  let ?w = "open_wb f (print (Merging n (basename f)) w)"
  let ?body = "\<lambda>i. reply_body (served e i (GET url (Some (plan_chunk S n i))))"
  have "files ?w f = Some []" by simp
  moreover have "\<forall>i \<in> set [0..<nat n]. files ?w (part_path f i) = Some (parts i)"
    using assms(2) by simp
  ultimately have loop: "fst (merge_loop f [0..<nat n] ?w) = Inr ()
       \<and> files (snd (merge_loop f [0..<nat n] ?w)) = (files ?w)(f \<mapsto> [] @ concat (map parts [0..<nat n]))"
    by (rule merge_loop_complete)
  have res: "fst (merge_files e f n w) = Inr ()"
    using assms(1) loop by (simp add: fst_merge_files)
  have final: "files (snd (merge_files e f n w)) f = Some (concat (map parts [0..<nat n]))"
    using assms(1) loop by (auto simp add: files_merge_files)
  have whole: "files (snd (merge_files e f n w)) f = Some r"
    if "1 \<le> n \<and> (\<forall>i. int i < n \<longrightarrow> parts i = byte_range r (plan_chunk (int (length r)) n i))"
  proof -
    have "map parts [0..<nat n] = map (\<lambda>i. byte_range r (plan_chunk (int (length r)) n i)) [0..<nat n]"
      using that by simp
    with final concat_byte_range_plan [of n r] that show ?thesis by simp
  qed
  have job: "files (snd (download_chunked e url fn f S n w0)) f = Some (concat (map ?body [0..<nat n]))"
    if "fst (download_chunked e url fn f S n w0) = Inr ()"
    using download_chunked_success(2) [OF that] .
  have job_whole: "files (snd (download_chunked e url fn f S n w0)) f = Some r"
    if h: "fst (download_chunked e url fn f S n w0) = Inr () \<and> S = int (length r)
            \<and> (\<forall>i. int i < n \<longrightarrow> ?body i = byte_range r (plan_chunk S n i))"
  proof -
    from h have ok: "fst (download_chunked e url fn f S n w0) = Inr ()" by blast
    have n: "1 \<le> n" using download_chunked_success(1) [OF ok] .
    from h have S: "S = int (length r)" by blast
    have "?body i = byte_range r (plan_chunk (int (length r)) n i)" if "i < nat n" for i
    proof -
      from that have "int i < n" by linarith
      with h show ?thesis unfolding S by blast
    qed
    then have "map ?body [0..<nat n] = map (\<lambda>i. byte_range r (plan_chunk (int (length r)) n i)) [0..<nat n]"
      by simp
    with job [OF ok] concat_byte_range_plan [OF n, of r] show ?thesis by simp
  qed
  from res final whole job job_whole show ?thesis by blast
qed

text \<open>
  The final file of a job that ends well is not the remote resource in general. For the
  resource \<open>07 09\<close> and 3 threads the plan has the ranges \<open>0..-1\<close>, \<open>0..-1\<close> and
  \<open>0..1\<close>; the server ignores the first two and sends the whole resource, and the merge
  concatenates three copies of it.
\<close>

theorem roundtrip_counterexample:
  "reply_body (range_server [7, 9] (GET ''u'' None)) = [7, 9]
   \<and> fst (download_chunked (two_byte_env True) ''u'' ''a.bin'' ''dl/a.bin'' 2 3 empty_world) = Inr ()
   \<and> files (snd (download_chunked (two_byte_env True) ''u'' ''a.bin'' ''dl/a.bin'' 2 3 empty_world))
        ''dl/a.bin'' = Some [7, 9, 7, 9, 7, 9]"
  by code_simp

theorem merge_concat_in_order_witness:
  "fst (merge_files (two_byte_env True) ''out'' 2 disk_parts2) = Inr ()
   \<and> files (snd (merge_files (two_byte_env True) ''out'' 2 disk_parts2)) ''out'' = Some [1, 2, 3]
   \<and> plan 3 2 = [(0, 0), (1, 2)]
   \<and> fst (download_chunked (two_byte_env True) ''u'' ''a'' ''out'' 2 2 empty_world) = Inr ()
   \<and> files (snd (download_chunked (two_byte_env True) ''u'' ''a'' ''out'' 2 2 empty_world)) ''out'' =
        Some [7, 9]"
proof -
  let ?parts = "\<lambda>i::nat. if i = 0 then [1] else [2, 3::byte]"
  have h1: "\<not> unwritable (two_byte_env True) ''out''"
    by (simp add: two_byte_env_def)
  have p0: "part_path ''out'' 0 = ''out.part0''"
    and p1: "part_path ''out'' (Suc 0) = ''out.part1''" "part_path ''out'' 1 = ''out.part1''"
    by code_simp+
  have two: "i = 0 \<or> i = 1" if "int i < 2" for i
    using that by linarith
  have h2: "\<forall>i. int i < 2 \<longrightarrow> files disk_parts2 (part_path ''out'' i) = Some (?parts i)"
  proof (intro allI impI)
    fix i :: nat
    assume "int i < 2"
    then have "i = 0 \<or> i = 1" by (rule two)
    then show "files disk_parts2 (part_path ''out'' i) = Some (?parts i)"
      by (auto simp add: p0 p1 disk_parts2_def)
  qed
  have c0: "byte_range [1, 2, 3] (plan_chunk 3 2 0) = [1]"
    and c1: "byte_range [1, 2, 3] (plan_chunk 3 2 1) = [2, 3]"
    by (simp_all add: byte_range_def plan_chunk_def Let_def)
  have h3: "1 \<le> (2::int) \<and> (\<forall>i. int i < 2 \<longrightarrow>
      ?parts i = byte_range [1, 2, 3] (plan_chunk (int (length [1, 2, 3::byte])) 2 i))"
  proof (intro conjI allI impI)
    show "1 \<le> (2::int)" by simp
  next
    fix i :: nat
    assume "int i < 2"
    then have "i = 0 \<or> i = 1" by (rule two)
    then show "?parts i = byte_range [1, 2, 3] (plan_chunk (int (length [1, 2, 3::byte])) 2 i)"
      using c0 c1 by auto
  qed
  have p: "plan 3 2 = [(0, 0), (1, 2)]"
    by (simp add: plan_def plan_chunk_def Let_def upt_rec)
  have ok: "fst (download_chunked (two_byte_env True) ''u'' ''a'' ''out'' 2 2 empty_world) = Inr ()"
    by code_simp
  have b0: "reply_body (served (two_byte_env True) 0 (GET ''u'' (Some (plan_chunk 2 2 0)))) =
      byte_range [7, 9] (plan_chunk 2 2 0)"
    and b1: "reply_body (served (two_byte_env True) 1 (GET ''u'' (Some (plan_chunk 2 2 1)))) =
      byte_range [7, 9] (plan_chunk 2 2 1)"
    by (simp_all add: two_byte_env_def range_server_def reply_body_def plan_chunk_def
        byte_range_def Let_def)
  have h4: "fst (download_chunked (two_byte_env True) ''u'' ''a'' ''out'' 2 2 empty_world) = Inr ()
      \<and> (2::int) = int (length [7, 9 :: byte])
      \<and> (\<forall>i. int i < 2 \<longrightarrow>
            reply_body (served (two_byte_env True) i (GET ''u'' (Some (plan_chunk 2 2 i)))) =
              byte_range [7, 9] (plan_chunk 2 2 i))"
  proof (intro conjI allI impI)
    show "fst (download_chunked (two_byte_env True) ''u'' ''a'' ''out'' 2 2 empty_world) = Inr ()"
      by (rule ok)
  next
    show "(2::int) = int (length [7, 9 :: byte])" by simp
  next
    fix i :: nat
    assume "int i < 2"
    then have "i = 0 \<or> i = 1" by (rule two)
    then show "reply_body (served (two_byte_env True) i (GET ''u'' (Some (plan_chunk 2 2 i)))) =
        byte_range [7, 9] (plan_chunk 2 2 i)"
      using b0 b1 by auto
  qed
  note t = merge_concat_in_order [OF h1 h2, where r = "[1, 2, 3]"]
  note t' = merge_concat_in_order [OF h1 h2, where r = "[7, 9]" and url = "''u''" and fn = "''a''"
      and S = 2 and ?w0.0 = empty_world]
  from t have "fst (merge_files (two_byte_env True) ''out'' 2 disk_parts2) = Inr ()"
    by (rule conjunct1)
  moreover from t h3 have "files (snd (merge_files (two_byte_env True) ''out'' 2 disk_parts2)) ''out'' =
      Some [1, 2, 3]"
    by blast
  moreover from t' h4 have "files (snd (download_chunked (two_byte_env True) ''u'' ''a'' ''out'' 2 2 empty_world))
      ''out'' = Some [7, 9]"
    by blast
  ultimately show ?thesis using p ok by simp
qed

section \<open>Fewer bytes than threads\<close>






section \<open>A merge that fails\<close>




section \<open>The handlers of \<open>download\<close>\<close>



end
